theory Spec2Isabelle
  imports Complex_Main "HOL-Library.Sublist"
begin

section \<open>Python string primitives used by the scrapers\<close>

text \<open>
  Python strings are modelled as \<^typ>\<open>string\<close>; a \<^typ>\<open>char\<close> stands for a code point
  in the range 0..255.  On that range \<open>str.isspace\<close> (and the regular expression class
  \<open>\s\<close>) holds for exactly the twelve characters below, and \<open>str.splitlines\<close> breaks
  at eight of them.
\<close>

definition py_isspace :: "char \<Rightarrow> bool" where
  "py_isspace c = (c \<in> set [CHR 0x09, CHR 0x0A, CHR 0x0B, CHR 0x0C, CHR 0x0D,
                             CHR 0x1C, CHR 0x1D, CHR 0x1E, CHR 0x1F, CHR 0x20,
                             CHR 0x85, CHR 0xA0])"

definition py_islinebreak :: "char \<Rightarrow> bool" where
  "py_islinebreak c = (c \<in> set [CHR 0x0A, CHR 0x0B, CHR 0x0C, CHR 0x0D,
                                 CHR 0x1C, CHR 0x1D, CHR 0x1E, CHR 0x85])"

definition py_lstrip :: "string \<Rightarrow> string" where
  "py_lstrip s = dropWhile py_isspace s"

definition py_rstrip :: "string \<Rightarrow> string" where
  "py_rstrip s = rev (dropWhile py_isspace (rev s))"

definition py_strip :: "string \<Rightarrow> string" where
  "py_strip s = py_rstrip (py_lstrip s)"

definition startswith :: "string \<Rightarrow> string \<Rightarrow> bool" where
  "startswith s p = (take (length p) s = p)"

definition endswith :: "string \<Rightarrow> string \<Rightarrow> bool" where
  "endswith s p = (length p \<le> length s \<and> drop (length s - length p) s = p)"

definition startswith_any :: "string \<Rightarrow> string list \<Rightarrow> bool" where
  "startswith_any s ps = list_ex (startswith s) ps"

definition py_lower_char :: "char \<Rightarrow> char" where
  "py_lower_char c =
     (let n = (of_char c :: nat)
      in if (65 \<le> n \<and> n \<le> 90) \<or> (192 \<le> n \<and> n \<le> 214) \<or> (216 \<le> n \<and> n \<le> 222)
         then char_of (n + 32) else c)"

definition py_lower :: "string \<Rightarrow> string" where
  "py_lower s = map py_lower_char s"

text \<open>\<open>sep.join(parts)\<close>.\<close>

fun py_join :: "string \<Rightarrow> string list \<Rightarrow> string" where
  "py_join sep [] = []"
| "py_join sep [x] = x"
| "py_join sep (x # y # ys) = x @ sep @ py_join sep (y # ys)"

text \<open>
  \<open>s.split()\<close> with no separator: the maximal runs of non-whitespace characters, in order.
  The accumulator \<open>w\<close> holds the current token.
\<close>

fun split_ws_acc :: "string \<Rightarrow> string \<Rightarrow> string list" where
  "split_ws_acc w [] = (if w = [] then [] else [w])"
| "split_ws_acc w (c # cs) =
     (if py_isspace c then (if w = [] then split_ws_acc [] cs else w # split_ws_acc [] cs)
      else split_ws_acc (w @ [c]) cs)"

definition py_split :: "string \<Rightarrow> string list" where
  "py_split s = split_ws_acc [] s"

text \<open>
  \<open>s.splitlines()\<close>: lines are ended by a line-break character, \<open>\r\n\<close> counts as one
  break, and no empty last line is produced when the string ends with a break.
\<close>

fun splitlines_acc :: "string \<Rightarrow> string \<Rightarrow> string list" where
  "splitlines_acc l [] = (if l = [] then [] else [l])"
| "splitlines_acc l (c # cs) =
     (if c = CHR 0x0D then
        (case cs of
           d # ds \<Rightarrow> if d = CHR 0x0A then l # splitlines_acc [] ds else l # splitlines_acc [] cs
         | [] \<Rightarrow> l # splitlines_acc [] cs)
      else if py_islinebreak c then l # splitlines_acc [] cs
      else splitlines_acc (l @ [c]) cs)"

definition py_splitlines :: "string \<Rightarrow> string list" where
  "py_splitlines s = splitlines_acc [] s"

text \<open>
  \<open>s.split("  ")\<close>: split at non-overlapping occurrences of two spaces, scanning from the
  left; the result always has at least one element.
\<close>

fun split2_acc :: "string \<Rightarrow> string \<Rightarrow> string list" where
  "split2_acc w [] = [w]"
| "split2_acc w [c] = [w @ [c]]"
| "split2_acc w (c # d # cs) =
     (if c = CHR '' '' \<and> d = CHR '' '' then w # split2_acc [] cs
      else split2_acc (w @ [c]) (d # cs))"

definition split_two_spaces :: "string \<Rightarrow> string list" where
  "split_two_spaces s = split2_acc [] s"

text \<open>\<open>re.sub(r'\s+', ' ', s)\<close>: every maximal run of whitespace becomes one space.\<close>

fun re_sub_ws_run :: "bool \<Rightarrow> string \<Rightarrow> string" where
  "re_sub_ws_run in_run [] = []"
| "re_sub_ws_run in_run (c # cs) =
     (if py_isspace c
      then (if in_run then re_sub_ws_run True cs else CHR '' '' # re_sub_ws_run True cs)
      else c # re_sub_ws_run False cs)"

definition re_sub_ws :: "string \<Rightarrow> string" where
  "re_sub_ws s = re_sub_ws_run False s"

section \<open>\<open>BaseScraper.validate_url\<close>\<close>

text \<open>
  The argument may be \<open>None\<close> or a string; the result is the pair
  \<open>(normalized_url, error_message)\<close>, each component possibly \<open>None\<close>.
\<close>

definition validate_url :: "string option \<Rightarrow> string option \<times> string option" where
  "validate_url url =
     (case url of
        None \<Rightarrow> (None, Some ''URL cannot be empty'')
      | Some u \<Rightarrow>
          if u = [] then (None, Some ''URL cannot be empty'')
          else
            let u1 = py_strip u;
                u2 = (if \<not> startswith_any u1 [''http://'', ''https://''] then ''https://'' @ u1 else u1)
            in (Some u2, None))"

section \<open>\<open>URLScraper._get_link_type\<close>\<close>

definition file_extensions :: "string list" where
  "file_extensions = [''.pdf'', ''.doc'', ''.docx'', ''.xls'', ''.xlsx'', ''.zip'', ''.rar'']"

definition get_link_type :: "string \<Rightarrow> string" where
  "get_link_type href =
     (if startswith href ''mailto:'' then ''email''
      else if startswith href ''tel:'' then ''phone''
      else if startswith href ''ftp:'' then ''ftp''
      else if startswith href ''#'' then ''anchor''
      else if startswith href ''javascript:'' then ''javascript''
      else if list_ex (\<lambda>ext. endswith (py_lower href) ext) file_extensions then ''file''
      else ''web'')"


section \<open>\<open>TextScraper._clean_text\<close>\<close>

definition clean_text :: "string \<Rightarrow> string" where
  "clean_text text =
     (let lines = map py_strip (py_splitlines text);
          chunks = concat (map (\<lambda>line. map py_strip (split_two_spaces line)) lines);
          cleaned = py_join '' '' (filter (\<lambda>chunk. chunk \<noteq> []) chunks);
          cleaned' = re_sub_ws cleaned
      in py_strip cleaned')"

section \<open>The parsed document\<close>

text \<open>
  The tree that \<open>BeautifulSoup(content, 'html.parser')\<close> builds: a text node, or an
  element with its tag name, its attribute dictionary and its children.  A document is the
  list of children of the root object.  Attribute values are kept as the strings of the
  markup; the parser stores \<open>class\<close> as the list of its whitespace-separated tokens, which
  \<open>class_tokens\<close> recomputes.
\<close>

datatype node = Text string | Element string "(string \<times> string) list" "node list"

type_synonym document = "node list"

fun tag_name :: "node \<Rightarrow> string" where
  "tag_name (Text s) = []"
| "tag_name (Element t a cs) = t"

fun attrs :: "node \<Rightarrow> (string \<times> string) list" where
  "attrs (Text s) = []"
| "attrs (Element t a cs) = a"

definition class_tokens :: "(string \<times> string) list \<Rightarrow> string list option" where
  "class_tokens a = map_option py_split (map_of a ''class'')"

text \<open>All elements below a node, the node included, in document order.\<close>

fun elements :: "node \<Rightarrow> node list" where
  "elements (Text s) = []"
| "elements (Element t a cs) = Element t a cs # concat (map elements cs)"

definition descendants :: "document \<Rightarrow> node list" where
  "descendants doc = concat (map elements doc)"

text \<open>All text strings below a node, in document order.\<close>

fun strings :: "node \<Rightarrow> string list" where
  "strings (Text s) = [s]"
| "strings (Element t a cs) = concat (map strings cs)"

text \<open>\<open>soup.find_all(name)\<close> and \<open>soup.find(name)\<close>.\<close>

definition find_all :: "string \<Rightarrow> document \<Rightarrow> node list" where
  "find_all name doc = filter (\<lambda>n. tag_name n = name) (descendants doc)"

definition find_first :: "string \<Rightarrow> document \<Rightarrow> node option" where
  "find_first name doc = (case find_all name doc of [] \<Rightarrow> None | n # _ \<Rightarrow> Some n)"

text \<open>\<open>soup.find(name, attrs={key: value})\<close>: the attribute must be present and equal.\<close>

definition find_first_attr :: "string \<Rightarrow> string \<Rightarrow> string \<Rightarrow> document \<Rightarrow> node option" where
  "find_first_attr name key val doc =
     (case filter (\<lambda>n. map_of (attrs n) key = Some val) (find_all name doc) of
        [] \<Rightarrow> None | n # _ \<Rightarrow> Some n)"

text \<open>\<open>tag.get(key, '')\<close>.\<close>

definition attr_get :: "node \<Rightarrow> string \<Rightarrow> string" where
  "attr_get n key = (case map_of (attrs n) key of None \<Rightarrow> [] | Some v \<Rightarrow> v)"

text \<open>
  \<open>tag.get_text(strip=True)\<close>: every string is stripped, the empty ones are dropped, the
  rest are concatenated.  \<open>soup.get_text()\<close> concatenates all strings as they are.
\<close>

definition get_text_strip :: "node \<Rightarrow> string" where
  "get_text_strip n = concat (filter (\<lambda>s. s \<noteq> []) (map py_strip (strings n)))"

definition get_text :: "document \<Rightarrow> string" where
  "get_text doc = concat (concat (map strings doc))"

section \<open>\<open>TextScraper._remove_unwanted_elements\<close>\<close>

text \<open>
  \<open>element.decompose()\<close> for every element that a query returned: the element goes with
  its whole subtree; decomposing an element whose ancestor is already gone changes nothing.
  The queries of this function look at the tag name and the attributes only.
\<close>

fun decompose_matching :: "(string \<Rightarrow> (string \<times> string) list \<Rightarrow> bool) \<Rightarrow> node \<Rightarrow> node list" where
  "decompose_matching P (Text s) = [Text s]"
| "decompose_matching P (Element t a cs) =
     (if P t a then [] else [Element t a (concat (map (decompose_matching P) cs))])"

definition decompose_all :: "(string \<Rightarrow> (string \<times> string) list \<Rightarrow> bool) \<Rightarrow> document \<Rightarrow> document" where
  "decompose_all P doc = concat (map (decompose_matching P) doc)"

text \<open>\<open>needle in haystack\<close>.\<close>

fun contains :: "string \<Rightarrow> string \<Rightarrow> bool" where
  "contains [] p = (p = [])"
| "contains (c # cs) p = (startswith (c # cs) p \<or> contains cs p)"

text \<open>
  The selector \<open>[key*="sub"]\<close>: the attribute is present and its value contains
  \<open>sub\<close>; the value of \<open>class\<close> is its token list joined by single spaces.
\<close>

definition attr_value_for_select :: "(string \<times> string) list \<Rightarrow> string \<Rightarrow> string option" where
  "attr_value_for_select a key =
     (if key = ''class'' then map_option (py_join '' '') (class_tokens a) else map_of a key)"

definition select_contains :: "string \<times> string \<Rightarrow> string \<Rightarrow> (string \<times> string) list \<Rightarrow> bool" where
  "select_contains sel t a =
     (case attr_value_for_select a (fst sel) of None \<Rightarrow> False | Some v \<Rightarrow> contains v (snd sel))"

definition unwanted_selectors :: "(string \<times> string) list" where
  "unwanted_selectors =
     [(''class'', ''nav''), (''class'', ''menu''), (''class'', ''sidebar''),
      (''class'', ''footer''), (''class'', ''header''),
      (''id'', ''nav''), (''id'', ''menu''), (''id'', ''sidebar''),
      (''id'', ''footer''), (''id'', ''header'')]"

definition remove_unwanted_elements :: "document \<Rightarrow> document" where
  "remove_unwanted_elements soup =
     (let soup1 = decompose_all (\<lambda>t a. t \<in> set [''script'', ''style'']) soup;
          soup2 = decompose_all (\<lambda>t a. t \<in> set [''nav'', ''header'', ''footer'', ''aside'']) soup1
      in foldl (\<lambda>d selector. decompose_all (select_contains selector) d) soup2 unwanted_selectors)"

section \<open>Metadata extraction of the text scraper\<close>

definition extract_title :: "document \<Rightarrow> string" where
  "extract_title soup =
     (case find_first ''title'' soup of
        Some title \<Rightarrow> get_text_strip title
      | None \<Rightarrow>
          (case find_first_attr ''meta'' ''property'' ''og:title'' soup of
             Some og_title \<Rightarrow> attr_get og_title ''content''
           | None \<Rightarrow>
               (case find_first ''h1'' soup of
                  Some h1 \<Rightarrow> get_text_strip h1
                | None \<Rightarrow> [])))"

definition extract_meta_description :: "document \<Rightarrow> string" where
  "extract_meta_description soup =
     (case find_first_attr ''meta'' ''name'' ''description'' soup of
        Some meta_desc \<Rightarrow> attr_get meta_desc ''content''
      | None \<Rightarrow>
          (case find_first_attr ''meta'' ''property'' ''og:description'' soup of
             Some og_desc \<Rightarrow> attr_get og_desc ''content''
           | None \<Rightarrow> []))"


definition heading_texts :: "string \<Rightarrow> document \<Rightarrow> string list" where
  "heading_texts level soup = map get_text_strip (find_all level soup)"

section \<open>Values, exceptions, configuration and the environment\<close>

text \<open>The values that occur in the response dictionaries; a dictionary keeps its keys in order.\<close>

datatype pyval =
    PNone
  | PBool bool
  | PInt int
  | PFloat rat
  | PStr string
  | PList "pyval list"
  | PDict "(string \<times> pyval) list"

type_synonym pydict = "(string \<times> pyval) list"

text \<open>
  The exceptions the scrapers distinguish, each with its \<open>str(error)\<close>:
  \<open>requests.exceptions.Timeout\<close>, any other \<open>requests.exceptions.RequestException\<close>
  (connection failure, or the HTTP error of \<open>raise_for_status\<close>), and any other exception.
\<close>

datatype exn = Timeout string | RequestException string | OtherException string

record config =
  REQUEST_TIMEOUT :: int
  MAX_CONTENT_LENGTH :: int

text \<open>
  What a call observes of the outside world: the result of \<open>get_page_response\<close> (the body,
  or the exception raised by the request or by \<open>raise_for_status\<close>), the HTML parser, the two
  functions of \<open>urllib.parse\<close>, the rounded elapsed time and the timestamp of the response.
\<close>

record env =
  get_page_response :: "string \<Rightarrow> exn + string"
  html_parser :: "string \<Rightarrow> exn + document"
  urljoin :: "string \<Rightarrow> string \<Rightarrow> exn + string"
  urlparse_netloc :: "string \<Rightarrow> exn + string"
  elapsed_rounded :: rat
  utcnow_isoformat :: string

text \<open>Decimal rendering of an integer, as an f-string does.\<close>

fun str_nat :: "nat \<Rightarrow> string" where
  "str_nat n = (if n < 10 then [char_of (48 + n)] else str_nat (n div 10) @ [char_of (48 + n mod 10)])"

declare str_nat.simps [simp del]

definition str_int :: "int \<Rightarrow> string" where
  "str_int i = (if i < 0 then ''-'' @ str_nat (nat (- i)) else str_nat (nat i))"

section \<open>\<open>BaseScraper\<close>: error responses\<close>

definition create_error_response :: "env \<Rightarrow> string \<Rightarrow> pydict" where
  "create_error_response e error_msg =
     [(''success'', PBool False),
      (''processing_time'', PFloat (elapsed_rounded e)),
      (''timestamp'', PStr (utcnow_isoformat e)),
      (''error'', PStr error_msg)]"

definition handle_request_errors :: "env \<Rightarrow> config \<Rightarrow> exn \<Rightarrow> pydict" where
  "handle_request_errors e cfg error =
     (let error_msg =
        (case error of
           Timeout m \<Rightarrow> ''Request timeout after '' @ str_int (REQUEST_TIMEOUT cfg) @ '' seconds''
         | RequestException m \<Rightarrow> ''Request failed: '' @ m
         | OtherException m \<Rightarrow> ''Unexpected error: '' @ m)
      in create_error_response e error_msg)"

section \<open>\<open>TextScraper\<close>\<close>

definition extract_headings :: "document \<Rightarrow> pydict" where
  "extract_headings soup =
     [(''h1'', PList (map PStr (heading_texts ''h1'' soup))),
      (''h2'', PList (map PStr (heading_texts ''h2'' soup))),
      (''h3'', PList (map PStr (heading_texts ''h3'' soup))),
      (''h4'', PList (map PStr (heading_texts ''h4'' soup))),
      (''h5'', PList (map PStr (heading_texts ''h5'' soup))),
      (''h6'', PList (map PStr (heading_texts ''h6'' soup)))]"

text \<open>
  \<open>_extract_text_content\<close> first changes the tree in place; every later step reads the
  changed tree.
\<close>

definition extract_text_content :: "document \<Rightarrow> pydict" where
  "extract_text_content soup0 =
     (let soup = remove_unwanted_elements soup0;
          text = get_text soup;
          cleaned_text = clean_text text;
          title = extract_title soup;
          meta_description = extract_meta_description soup;
          headings = extract_headings soup
      in [(''text'', PStr cleaned_text),
          (''title'', PStr title),
          (''meta_description'', PStr meta_description),
          (''headings'', PDict headings),
          (''word_count'', PInt (int (length (py_split cleaned_text)))),
          (''character_count'', PInt (int (length cleaned_text)))])"

definition text_create_empty_response :: "env \<Rightarrow> string \<Rightarrow> pydict" where
  "text_create_empty_response e error_msg =
     [(''success'', PBool False),
      (''text'', PStr []),
      (''title'', PStr []),
      (''meta_description'', PStr []),
      (''headings'', PDict []),
      (''word_count'', PInt 0),
      (''character_count'', PInt 0),
      (''processing_time'', PFloat (elapsed_rounded e)),
      (''timestamp'', PStr (utcnow_isoformat e)),
      (''error'', PStr error_msg)]"

text \<open>\<open>d[key]\<close> on a dictionary that has the key.\<close>

definition dict_get :: "pydict \<Rightarrow> string \<Rightarrow> pyval" where
  "dict_get d key = (case map_of d key of Some v \<Rightarrow> v | None \<Rightarrow> PNone)"

text \<open>The test \<open>if error:\<close> on a value that is \<open>None\<close> or a string.\<close>

definition py_truthy :: "string option \<Rightarrow> bool" where
  "py_truthy v = (case v of None \<Rightarrow> False | Some s \<Rightarrow> s \<noteq> [])"

text \<open>
  \<open>TextScraper.scrape\<close> after the validation step.  The URL is \<open>None\<close> only together
  with an error message, so the first branch, which stands for the \<open>RequestException\<close> of
  \<open>session.get(None)\<close>, is never taken.
\<close>

definition text_scrape_page :: "env \<Rightarrow> config \<Rightarrow> string option \<Rightarrow> pydict" where
  "text_scrape_page e cfg url1 =
     (case url1 of
        None \<Rightarrow> handle_request_errors e cfg (RequestException ''Invalid URL'')
      | Some url \<Rightarrow>
          (case get_page_response e url of
             Inl ex \<Rightarrow> handle_request_errors e cfg ex
           | Inr content \<Rightarrow>
               if int (length content) > MAX_CONTENT_LENGTH cfg
               then text_create_empty_response e
                      (''Content too large: '' @ str_int (int (length content)) @
                       '' bytes (max: '' @ str_int (MAX_CONTENT_LENGTH cfg) @ '')'')
               else
                 (case html_parser e content of
                    Inl ex \<Rightarrow> handle_request_errors e cfg ex
                  | Inr soup \<Rightarrow>
                      let text_data = extract_text_content soup
                      in [(''success'', PBool True),
                          (''text'', dict_get text_data ''text''),
                          (''title'', dict_get text_data ''title''),
                          (''meta_description'', dict_get text_data ''meta_description''),
                          (''headings'', dict_get text_data ''headings''),
                          (''word_count'', dict_get text_data ''word_count''),
                          (''character_count'', dict_get text_data ''character_count''),
                          (''processing_time'', PFloat (elapsed_rounded e)),
                          (''timestamp'', PStr (utcnow_isoformat e)),
                          (''error'', PNone)])))"

definition text_scrape :: "env \<Rightarrow> config \<Rightarrow> string option \<Rightarrow> pydict" where
  "text_scrape e cfg url0 =
     (case validate_url url0 of
        (url1, error) \<Rightarrow>
          if py_truthy error
          then text_create_empty_response e (case error of Some msg \<Rightarrow> msg | None \<Rightarrow> [])
          else text_scrape_page e cfg url1)"


section \<open>\<open>URLScraper\<close>\<close>

text \<open>
  \<open>_is_external_link\<close>: the two calls of \<open>urlparse\<close> run inside \<open>try\<close>, and the bare
  \<open>except\<close> turns any exception into \<open>False\<close>.
\<close>

definition is_external_link_body :: "env \<Rightarrow> string \<Rightarrow> string \<Rightarrow> exn + bool" where
  "is_external_link_body e link_url base_url =
     (case urlparse_netloc e link_url of
        Inl ex \<Rightarrow> Inl ex
      | Inr link_domain \<Rightarrow>
          (case urlparse_netloc e base_url of
             Inl ex \<Rightarrow> Inl ex
           | Inr base_domain \<Rightarrow> Inr (link_domain \<noteq> base_domain \<and> link_domain \<noteq> [])))"

definition is_external_link :: "env \<Rightarrow> string \<Rightarrow> string \<Rightarrow> bool" where
  "is_external_link e link_url base_url =
     (case is_external_link_body e link_url base_url of Inl ex \<Rightarrow> False | Inr b \<Rightarrow> b)"

text \<open>\<open>soup.find_all('a', href=True)\<close>: the anchors that carry an \<open>href\<close> attribute.\<close>

definition anchors_with_href :: "document \<Rightarrow> node list" where
  "anchors_with_href soup = filter (\<lambda>n. map_of (attrs n) ''href'' \<noteq> None) (find_all ''a'' soup)"

definition link_obj :: "env \<Rightarrow> string \<Rightarrow> nat \<Rightarrow> node \<Rightarrow> string \<Rightarrow> pydict" where
  "link_obj e base_url i anchor full_url =
     (let href = attr_get anchor ''href'';
          link_text = get_text_strip anchor;
          is_relative = (\<not> startswith_any href [''http://'', ''https://'', ''mailto:'', ''tel:'', ''ftp://'']);
          link_title = attr_get anchor ''title'';
          link_class = py_join '' '' (case class_tokens (attrs anchor) of None \<Rightarrow> [] | Some ts \<Rightarrow> ts)
      in [(''id'', PInt (int i + 1)),
          (''url'', PStr full_url),
          (''original_href'', PStr href),
          (''text'', PStr link_text),
          (''title'', PStr link_title),
          (''class'', PStr link_class),
          (''is_relative'', PBool is_relative),
          (''is_external'', PBool (is_external_link e full_url base_url)),
          (''link_type'', PStr (get_link_type href))])"

text \<open>
  The loop of \<open>_extract_links\<close> over \<open>enumerate(...)\<close>, with \<open>i\<close> the running index.  An
  exception of \<open>urljoin\<close> leaves the loop and the function.
\<close>

fun extract_links_loop :: "env \<Rightarrow> string \<Rightarrow> nat \<Rightarrow> node list \<Rightarrow> exn + pydict list" where
  "extract_links_loop e base_url i [] = Inr []"
| "extract_links_loop e base_url i (anchor # rest) =
     (case urljoin e base_url (attr_get anchor ''href'') of
        Inl ex \<Rightarrow> Inl ex
      | Inr full_url \<Rightarrow>
          (case extract_links_loop e base_url (Suc i) rest of
             Inl ex \<Rightarrow> Inl ex
           | Inr links \<Rightarrow> Inr (link_obj e base_url i anchor full_url # links)))"

definition extract_links :: "env \<Rightarrow> document \<Rightarrow> string \<Rightarrow> exn + pydict list" where
  "extract_links e soup base_url = extract_links_loop e base_url 0 (anchors_with_href soup)"

definition url_create_empty_response :: "env \<Rightarrow> string \<Rightarrow> pydict" where
  "url_create_empty_response e error_msg =
     [(''success'', PBool False),
      (''urls'', PList []),
      (''count'', PInt 0),
      (''processing_time'', PFloat (elapsed_rounded e)),
      (''timestamp'', PStr (utcnow_isoformat e)),
      (''error'', PStr error_msg)]"

text \<open>\<open>URLScraper.scrape\<close> after the validation step.\<close>

definition url_scrape_page :: "env \<Rightarrow> config \<Rightarrow> string option \<Rightarrow> pydict" where
  "url_scrape_page e cfg url1 =
     (case url1 of
        None \<Rightarrow> handle_request_errors e cfg (RequestException ''Invalid URL'')
      | Some url \<Rightarrow>
          (case get_page_response e url of
             Inl ex \<Rightarrow> handle_request_errors e cfg ex
           | Inr content \<Rightarrow>
               (case html_parser e content of
                  Inl ex \<Rightarrow> handle_request_errors e cfg ex
                | Inr soup \<Rightarrow>
                    (case extract_links e soup url of
                       Inl ex \<Rightarrow> handle_request_errors e cfg ex
                     | Inr links \<Rightarrow>
                         [(''success'', PBool True),
                          (''urls'', PList (map PDict links)),
                          (''count'', PInt (int (length links))),
                          (''processing_time'', PFloat (elapsed_rounded e)),
                          (''timestamp'', PStr (utcnow_isoformat e)),
                          (''error'', PNone)]))))"

definition url_scrape :: "env \<Rightarrow> config \<Rightarrow> string option \<Rightarrow> pydict" where
  "url_scrape e cfg url0 =
     (case validate_url url0 of
        (url1, error) \<Rightarrow>
          if py_truthy error
          then url_create_empty_response e (case error of Some msg \<Rightarrow> msg | None \<Rightarrow> [])
          else url_scrape_page e cfg url1)"

section \<open>Notions used to state the properties\<close>

text \<open>Shape of a cleaned text: single spaces are the only whitespace, and none at the ends.\<close>

fun no_double_space :: "string \<Rightarrow> bool" where
  "no_double_space (c # d # cs) = (\<not> (c = CHR '' '' \<and> d = CHR '' '') \<and> no_double_space (d # cs))"
| "no_double_space _ = True"

definition normalized :: "string \<Rightarrow> bool" where
  "normalized s =
     ((\<forall>c \<in> set s. py_isspace c \<longrightarrow> c = CHR '' '') \<and> no_double_space s \<and>
      (s \<noteq> [] \<longrightarrow> \<not> py_isspace (hd s) \<and> \<not> py_isspace (last s)))"

text \<open>
  The title chain as the specification words it: the candidates are consulted in order until
  one yields a non-empty value.
\<close>

definition first_nonempty :: "string list \<Rightarrow> string" where
  "first_nonempty cands = (case filter (\<lambda>c. c \<noteq> []) cands of [] \<Rightarrow> [] | c # _ \<Rightarrow> c)"

definition title_chain_nonempty_spec :: "document \<Rightarrow> string" where
  "title_chain_nonempty_spec soup =
     first_nonempty
       [case find_first ''title'' soup of None \<Rightarrow> [] | Some t \<Rightarrow> get_text_strip t,
        case find_first_attr ''meta'' ''property'' ''og:title'' soup of
          None \<Rightarrow> [] | Some m \<Rightarrow> attr_get m ''content'',
        case find_first ''h1'' soup of None \<Rightarrow> [] | Some h \<Rightarrow> get_text_strip h]"

text \<open>
  Noise elements as the specification lists them: script and style tags, the structural tags,
  and elements whose class or id contains one of the five substrings.
\<close>

definition noise_substrings :: "string list" where
  "noise_substrings = [''nav'', ''menu'', ''sidebar'', ''footer'', ''header'']"

definition attr_contains :: "(string \<times> string) list \<Rightarrow> string \<Rightarrow> string \<Rightarrow> bool" where
  "attr_contains a key sub = (case map_of a key of None \<Rightarrow> False | Some v \<Rightarrow> contains v sub)"

definition is_noise :: "string \<Rightarrow> (string \<times> string) list \<Rightarrow> bool" where
  "is_noise t a =
     (t \<in> set [''script'', ''style''] \<or> t \<in> set [''nav'', ''header'', ''footer'', ''aside''] \<or>
      list_ex (\<lambda>sub. attr_contains a ''class'' sub \<or> attr_contains a ''id'' sub) noise_substrings)"

text \<open>
  The elements of the original tree that are neither noise nor inside a noise element, in
  document order: the walk does not enter a noise element.
\<close>

fun elements_outside_noise :: "node \<Rightarrow> node list" where
  "elements_outside_noise (Text s) = []"
| "elements_outside_noise (Element t a cs) =
     (if is_noise t a then [] else Element t a cs # concat (map elements_outside_noise cs))"

text \<open>An element as it stands after the noise below it is gone.\<close>

fun strip_noise :: "node \<Rightarrow> node" where
  "strip_noise (Text s) = Text s"
| "strip_noise (Element t a cs) = Element t a (concat (map (decompose_matching is_noise) cs))"

definition headings_outside_noise :: "string \<Rightarrow> document \<Rightarrow> string list" where
  "headings_outside_noise level doc =
     map (\<lambda>h. get_text_strip (strip_noise h))
         (filter (\<lambda>h. tag_name h = level) (concat (map elements_outside_noise doc)))"

text \<open>
  The host of a network location, as the \<open>hostname\<close> property of \<open>urllib.parse\<close> reads it
  from \<open>netloc\<close>: what follows the last \<open>@\<close>, up to the port (or between the brackets of
  an IPv6 literal), in lower case up to a zone sign.  The empty string stands for \<open>None\<close>.
\<close>

definition after_last :: "char \<Rightarrow> string \<Rightarrow> string" where
  "after_last c s = rev (takeWhile (\<lambda>x. x \<noteq> c) (rev s))"

definition before_first :: "char \<Rightarrow> string \<Rightarrow> string" where
  "before_first c s = takeWhile (\<lambda>x. x \<noteq> c) s"

definition after_first :: "char \<Rightarrow> string \<Rightarrow> string" where
  "after_first c s = drop 1 (dropWhile (\<lambda>x. x \<noteq> c) s)"

definition hostname_of_netloc :: "string \<Rightarrow> string" where
  "hostname_of_netloc netloc =
     (let hostinfo = after_last (CHR ''@'') netloc;
          hostname = (if CHR ''['' \<in> set hostinfo
                      then before_first (CHR '']'') (after_first (CHR ''['') hostinfo)
                      else before_first (CHR '':'') hostinfo)
      in py_lower (before_first (CHR ''%'') hostname) @ dropWhile (\<lambda>x. x \<noteq> CHR ''%'') hostname)"

section \<open>Example inputs\<close>

text \<open>
  A configuration with a small content limit, three pages (one of them empty) and an
  environment that serves them; a fourth host times out.
  \<open>example_urljoin\<close> and \<open>example_netloc\<close> give the values of \<open>urljoin\<close> and of
  \<open>urlparse(...).netloc\<close> at the URLs of these examples; an unbalanced bracket in the host
  makes both raise \<open>ValueError\<close>.
\<close>

definition example_cfg :: config where
  "example_cfg = \<lparr>REQUEST_TIMEOUT = 10, MAX_CONTENT_LENGTH = 20\<rparr>"

definition example_body :: string where
  "example_body = ''<h1>A</h1><a href=/d.pdf>R</a><a href=https://other.org/p>O</a>''"

definition example_doc :: document where
  "example_doc =
     [Element ''h1'' [] [Text ''A''],
      Element ''a'' [(''href'', ''/d.pdf'')] [Text ''R''],
      Element ''a'' [(''href'', ''https://other.org/p'')] [Text ''O'']]"

definition small_body :: string where
  "small_body = ''<h1> A  B </h1>''"

definition small_doc :: document where
  "small_doc = [Element ''h1'' [] [Text '' A  B '']]"

definition example_urljoin :: "string \<Rightarrow> string \<Rightarrow> exn + string" where
  "example_urljoin base href =
     (if href = ''/d.pdf'' then Inr ''https://site.com/d.pdf''
      else if href = ''//[x'' then Inl (OtherException ''Invalid IPv6 URL'')
      else Inr href)"

definition example_netloc :: "string \<Rightarrow> exn + string" where
  "example_netloc url =
     (if url = ''https://site.com/x'' \<or> url = ''https://site.com/d.pdf'' then Inr ''site.com''
      else if url = ''https://other.org/p'' then Inr ''other.org''
      else if url = ''https://site.com:443/p'' then Inr ''site.com:443''
      else if url = ''https://SITE.com/p'' then Inr ''SITE.com''
      else if url = ''https://u@site.com/p'' then Inr ''u@site.com''
      else if url = ''http://[::1'' then Inl (OtherException ''Invalid IPv6 URL'')
      else Inr [])"

definition example_env :: env where
  "example_env =
     \<lparr>get_page_response =
        (\<lambda>url. if url = ''https://slow.test'' then Inl (Timeout ''Read timed out.'')
               else if url = ''https://small.test'' then Inr small_body
               else if url = ''https://empty.test'' then Inr []
               else Inr example_body),
      html_parser =
        (\<lambda>content. if content = small_body then Inr small_doc
                   else if content = [] then Inr []
                   else Inr example_doc),
      urljoin = example_urljoin,
      urlparse_netloc = example_netloc,
      elapsed_rounded = 12 / 100,
      utcnow_isoformat = ''2024-01-01T00:00:00.000000''\<rparr>"

text \<open>A page with an empty title element and an Open Graph title.\<close>

definition empty_title_doc :: document where
  "empty_title_doc =
     [Element ''title'' [] [],
      Element ''meta'' [(''property'', ''og:title''), (''content'', ''Fallback'')] []]"

definition og_title_doc :: document where
  "og_title_doc =
     [Element ''meta'' [(''property'', ''og:title''), (''content'', ''Fallback'')] [],
      Element ''h1'' [] [Text ''Head'']]"

text \<open>A page with one heading inside a navigation bar and one outside.\<close>

definition nav_doc :: document where
  "nav_doc =
     [Element ''div'' [(''class'', ''top navbar'')] [Element ''h1'' [] [Text ''Menu'']],
      Element ''h1'' [] [Text ''Story'']]"


section \<open>Text normalization\<close>

lemma no_double_space_tl: "no_double_space (c # cs) \<Longrightarrow> no_double_space cs"
  by (cases cs) simp_all

lemma no_double_space_prefix: "no_double_space (xs @ ys) \<Longrightarrow> no_double_space xs"
  by (induction xs rule: no_double_space.induct) auto

lemma no_double_space_dropWhile: "no_double_space s \<Longrightarrow> no_double_space (dropWhile P s)"
  by (induction s) (auto dest: no_double_space_tl)

lemma py_rstrip_prefix: "\<exists>t. s = py_rstrip s @ t"
proof -
  have "rev s = takeWhile py_isspace (rev s) @ dropWhile py_isspace (rev s)" by simp
  then have "s = rev (dropWhile py_isspace (rev s)) @ rev (takeWhile py_isspace (rev s))"
    by (metis rev_append rev_rev_ident)
  then show ?thesis unfolding py_rstrip_def by blast
qed

lemma py_lstrip_suffix: "\<exists>t. s = t @ py_lstrip s"
  unfolding py_lstrip_def by (metis takeWhile_dropWhile_id)

lemma py_strip_set: "set (py_strip s) \<subseteq> set s"
proof -
  obtain t where t: "py_lstrip s = py_strip s @ t"
    unfolding py_strip_def using py_rstrip_prefix by blast
  obtain u where "s = u @ py_lstrip s" using py_lstrip_suffix by blast
  with t have "s = u @ py_strip s @ t" by simp
  then show ?thesis by (metis Un_iff set_append subsetI)
qed

lemma py_strip_no_double_space: "no_double_space s \<Longrightarrow> no_double_space (py_strip s)"
proof -
  assume a: "no_double_space s"
  then have "no_double_space (py_lstrip s)" unfolding py_lstrip_def by (rule no_double_space_dropWhile)
  moreover obtain t where "py_lstrip s = py_strip s @ t"
    unfolding py_strip_def using py_rstrip_prefix by blast
  ultimately show ?thesis using no_double_space_prefix by metis
qed

lemma py_strip_ends:
  assumes "py_strip s \<noteq> []"
  shows "\<not> py_isspace (hd (py_strip s)) \<and> \<not> py_isspace (last (py_strip s))"
proof -
  let ?l = "py_lstrip s"
  obtain t where t: "?l = py_strip s @ t"
    unfolding py_strip_def using py_rstrip_prefix by blast
  with assms have ne: "?l \<noteq> []" by auto
  then have "\<not> py_isspace (hd ?l)" unfolding py_lstrip_def by (rule hd_dropWhile)
  moreover have "hd ?l = hd (py_strip s)" using t assms by (metis hd_append2)
  moreover have "\<not> py_isspace (last (py_strip s))"
  proof -
    have "dropWhile py_isspace (rev ?l) \<noteq> []" using assms unfolding py_strip_def py_rstrip_def by simp
    then have "\<not> py_isspace (hd (dropWhile py_isspace (rev ?l)))" by (rule hd_dropWhile)
    then show ?thesis using assms unfolding py_strip_def py_rstrip_def by (simp add: last_rev)
  qed
  ultimately show ?thesis by simp
qed

lemma py_strip_id:
  assumes "s \<noteq> [] \<longrightarrow> \<not> py_isspace (hd s) \<and> \<not> py_isspace (last s)"
  shows "py_strip s = s"
proof (cases "s = []")
  case True then show ?thesis by (simp add: py_strip_def py_lstrip_def py_rstrip_def)
next
  case False
  with assms have h: "\<not> py_isspace (hd s)" and l: "\<not> py_isspace (last s)" by auto
  from h False have 1: "py_lstrip s = s" unfolding py_lstrip_def by (cases s) auto
  from l False have "dropWhile py_isspace (rev s) = rev s"
    by (cases "rev s") (auto simp: last_rev hd_rev)
  then show ?thesis unfolding py_strip_def 1 py_rstrip_def by simp
qed

lemma re_sub_ws_run_spaces: "c \<in> set (re_sub_ws_run b s) \<Longrightarrow> py_isspace c \<Longrightarrow> c = CHR '' ''"
  by (induction b s rule: re_sub_ws_run.induct) (auto split: if_splits)

lemma re_sub_ws_run_True_hd:
  "re_sub_ws_run True s \<noteq> [] \<Longrightarrow> \<not> py_isspace (hd (re_sub_ws_run True s))"
  by (induction s) (auto split: if_splits)

lemma re_sub_ws_run_no_double: "no_double_space (re_sub_ws_run b s)"
proof (induction b s rule: re_sub_ws_run.induct)
  case (1 in_run) show ?case by simp
next
  case (2 in_run c cs)
  have sp: "py_isspace (CHR '' '')" by (simp add: py_isspace_def)
  show ?case
  proof (cases "py_isspace c")
    case True
    show ?thesis
    proof (cases in_run)
      case True with \<open>py_isspace c\<close> 2 show ?thesis by simp
    next
      case False
      have nd: "no_double_space (re_sub_ws_run True cs)" using 2 \<open>py_isspace c\<close> False by simp
      show ?thesis
      proof (cases "re_sub_ws_run True cs")
        case Nil then show ?thesis using \<open>py_isspace c\<close> False by simp
      next
        case (Cons d ds)
        then have "\<not> py_isspace d" using re_sub_ws_run_True_hd[of cs] by simp
        then have "d \<noteq> CHR '' ''" using sp by auto
        then show ?thesis using \<open>py_isspace c\<close> False nd Cons by simp
      qed
    qed
  next
    case False
    then have nd: "no_double_space (re_sub_ws_run False cs)" using 2 by simp
    have "c \<noteq> CHR '' ''" using False sp by auto
    then show ?thesis using False nd by (cases "re_sub_ws_run False cs") simp_all
  qed
qed

lemma normalized_strip_re_sub: "normalized (py_strip (re_sub_ws x))"
  unfolding normalized_def re_sub_ws_def
  using py_strip_set[of "re_sub_ws_run False x"] re_sub_ws_run_spaces[of _ False x]
        py_strip_no_double_space[OF re_sub_ws_run_no_double[of False x]]
        py_strip_ends[of "re_sub_ws_run False x"]
  by blast

lemma normalized_clean_text: "normalized (clean_text x)"
  unfolding clean_text_def Let_def by (rule normalized_strip_re_sub)


lemma splitlines_acc_no_break:
  "\<forall>c \<in> set s. \<not> py_islinebreak c \<Longrightarrow> splitlines_acc l s = (if l @ s = [] then [] else [l @ s])"
proof (induction s arbitrary: l)
  case Nil then show ?case by simp
next
  case (Cons c cs)
  then have nb: "\<not> py_islinebreak c" and rest: "\<forall>c \<in> set cs. \<not> py_islinebreak c" by auto
  from nb have "c \<noteq> CHR 0x0D" by (auto simp: py_islinebreak_def)
  with nb Cons.IH[OF rest, of "l @ [c]"] show ?case by simp
qed

lemma linebreak_isspace: "py_islinebreak c \<Longrightarrow> py_isspace c \<and> c \<noteq> CHR '' ''"
  by (auto simp: py_islinebreak_def py_isspace_def)

lemma split2_acc_no_double: "no_double_space s \<Longrightarrow> split2_acc w s = [w @ s]"
  by (induction w s rule: split2_acc.induct) auto

lemma re_sub_ws_run_id:
  "\<forall>c \<in> set s. py_isspace c \<longrightarrow> c = CHR '' '' \<Longrightarrow> no_double_space s \<Longrightarrow>
   (b \<longrightarrow> s = [] \<or> \<not> py_isspace (hd s)) \<Longrightarrow> re_sub_ws_run b s = s"
proof (induction s arbitrary: b)
  case Nil then show ?case by simp
next
  case (Cons c cs)
  have nd: "no_double_space cs" using Cons.prems(2) by (rule no_double_space_tl)
  have al: "\<forall>c \<in> set cs. py_isspace c \<longrightarrow> c = CHR '' ''" using Cons.prems(1) by simp
  show ?case
  proof (cases "py_isspace c")
    case True
    then have c: "c = CHR '' ''" using Cons.prems(1) by simp
    from True Cons.prems(3) have nb: "\<not> b" by auto
    have "cs = [] \<or> \<not> py_isspace (hd cs)"
    proof (cases cs)
      case Nil then show ?thesis by simp
    next
      case (Cons d ds)
      with Cons.prems(2) c have "d \<noteq> CHR '' ''" by simp
      with al Cons show ?thesis by auto
    qed
    then have "re_sub_ws_run True cs = cs" using Cons.IH[OF al nd, of True] by simp
    with True nb c show ?thesis by simp
  next
    case False
    have "re_sub_ws_run False cs = cs" using Cons.IH[OF al nd, of False] by simp
    with False show ?thesis by simp
  qed
qed

lemma clean_text_normalized_id:
  assumes n: "normalized s"
  shows "clean_text s = s"
proof (cases "s = []")
  case True
  then show ?thesis
    by (simp add: clean_text_def py_splitlines_def re_sub_ws_def py_strip_def py_lstrip_def py_rstrip_def)
next
  case False
  from n have sp: "\<forall>c \<in> set s. py_isspace c \<longrightarrow> c = CHR '' ''"
    and nd: "no_double_space s"
    and ends: "s \<noteq> [] \<longrightarrow> \<not> py_isspace (hd s) \<and> \<not> py_isspace (last s)"
    unfolding normalized_def by auto
  have "\<forall>c \<in> set s. \<not> py_islinebreak c" using sp linebreak_isspace by blast
  then have lines: "py_splitlines s = [s]"
    using False by (simp add: py_splitlines_def splitlines_acc_no_break)
  have strip: "py_strip s = s" using ends by (rule py_strip_id)
  have chunks: "split_two_spaces s = [s]"
    using nd by (simp add: split_two_spaces_def split2_acc_no_double)
  have sub: "re_sub_ws s = s"
    unfolding re_sub_ws_def using sp nd by (rule re_sub_ws_run_id) simp
  show ?thesis
    using False by (simp add: clean_text_def lines strip chunks sub)
qed


text \<open>
  C8: the text normalization of \<open>_clean_text\<close> is idempotent: cleaning an already cleaned
  text gives the same text.
\<close>

theorem clean_text_idempotent: "clean_text (clean_text x) = clean_text x"
  by (rule clean_text_normalized_id) (rule normalized_clean_text)

section \<open>URL validation\<close>

text \<open>
  C3: a whitespace-only input should be rejected as empty.  The emptiness test of
  \<open>validate_url\<close> runs before the trimming, so three spaces pass it and come back as the
  bare scheme, with no error.
\<close>

theorem validate_url_whitespace_only:
  "validate_url (Some ''   '') = (Some ''https://'', None)"
  by (simp add: validate_url_def py_strip_def py_lstrip_def py_rstrip_def py_isspace_def
      startswith_any_def startswith_def)

section \<open>Link classification\<close>

lemma startswith_prefix: "startswith s p = prefix p s"
  unfolding startswith_def by (metis append_take_drop_id prefix_def append_eq_conv_conj)

lemma endswith_suffix: "endswith s p = suffix p s"
proof
  assume "endswith s p"
  then have "s = take (length s - length p) s @ p"
    unfolding endswith_def by (metis append_take_drop_id)
  then show "suffix p s" unfolding suffix_def by blast
next
  assume "suffix p s"
  then obtain u where "s = u @ p" unfolding suffix_def by blast
  then show "endswith s p" unfolding endswith_def by simp
qed


text \<open>
  C5: the link type is the first match in the order mailto, tel, ftp, fragment, javascript,
  file extension (on the lower-cased href), else web; \<open>mailto:#fragment\<close> is an email link.
\<close>

theorem get_link_type_precedence:
  "get_link_type href =
     (if prefix ''mailto:'' href then ''email''
      else if prefix ''tel:'' href then ''phone''
      else if prefix ''ftp:'' href then ''ftp''
      else if prefix ''#'' href then ''anchor''
      else if prefix ''javascript:'' href then ''javascript''
      else if (\<exists>ext \<in> set [''.pdf'', ''.doc'', ''.docx'', ''.xls'', ''.xlsx'', ''.zip'', ''.rar''].
                 suffix ext (py_lower href)) then ''file''
      else ''web'')
   \<and> get_link_type ''mailto:#fragment'' = ''email''"
  unfolding get_link_type_def startswith_prefix endswith_suffix file_extensions_def list_ex_iff
  by simp

lemma py_lower_example: "py_lower ''/docs/Report.PDF'' = ''/docs/report.pdf''"
  by code_simp

theorem get_link_type_precedence_witness:
  "get_link_type ''mailto:#fragment'' = ''email'' \<and> get_link_type ''#top'' = ''anchor''
   \<and> get_link_type ''/docs/Report.PDF'' = ''file''"
  using get_link_type_precedence [of "''mailto:#fragment''"] get_link_type_precedence [of "''#top''"]
    get_link_type_precedence [of "''/docs/Report.PDF''"]
  by (simp add: py_lower_example suffix_def)



section \<open>Facts about the example inputs\<close>

lemma example_env_simps:
  "get_page_response example_env url =
     (if url = ''https://slow.test'' then Inl (Timeout ''Read timed out.'')
      else if url = ''https://small.test'' then Inr small_body
      else if url = ''https://empty.test'' then Inr [] else Inr example_body)"
  "html_parser example_env content =
     (if content = small_body then Inr small_doc else if content = [] then Inr [] else Inr example_doc)"
  "urljoin example_env = example_urljoin"
  "urlparse_netloc example_env = example_netloc"
  by (simp_all add: example_env_def)

lemma validate_url_examples:
  "validate_url (Some ''slow.test'') = (Some ''https://slow.test'', None)"
  "validate_url (Some ''small.test'') = (Some ''https://small.test'', None)"
  "validate_url (Some ''site.com/x'') = (Some ''https://site.com/x'', None)"
  "validate_url (Some ''empty.test'') = (Some ''https://empty.test'', None)"
  by (simp_all add: validate_url_def py_strip_def py_lstrip_def py_rstrip_def py_isspace_def
      startswith_any_def startswith_def)

section \<open>External links\<close>

text \<open>
  What \<open>_is_external_link\<close> computes: it compares the two network locations as
  \<open>urlparse\<close> returns them, and answers \<open>False\<close> when either call raises.
\<close>

lemma is_external_link_netloc:
  "(urlparse_netloc e link_url = Inr l \<and> urlparse_netloc e base_url = Inr b \<longrightarrow>
      is_external_link e link_url base_url = (l \<noteq> b \<and> l \<noteq> []))
   \<and> ((\<exists>ex. urlparse_netloc e link_url = Inl ex \<or> urlparse_netloc e base_url = Inl ex) \<longrightarrow>
      \<not> is_external_link e link_url base_url)"
  by (auto simp: is_external_link_def is_external_link_body_def split: sum.splits)

lemma hostname_of_netloc_empty: "hostname_of_netloc [] = []"
  by (simp add: hostname_of_netloc_def after_last_def before_first_def py_lower_def)

text \<open>
  One direction holds for hosts: links whose host differs from the host of the base URL and
  is not empty are external.
\<close>

lemma different_hosts_are_external:
  assumes "urlparse_netloc e link_url = Inr l" and "urlparse_netloc e base_url = Inr b"
    and "hostname_of_netloc l \<noteq> hostname_of_netloc b" and "hostname_of_netloc l \<noteq> []"
  shows "is_external_link e link_url base_url"
proof -
  from assms(3) have "l \<noteq> b" by auto
  moreover from assms(4) have "l \<noteq> []" using hostname_of_netloc_empty by auto
  ultimately show ?thesis
    using assms(1,2) by (simp add: is_external_link_def is_external_link_body_def)
qed

lemma example_hostnames:
  "hostname_of_netloc ''site.com'' = ''site.com''"
  "hostname_of_netloc ''site.com:443'' = ''site.com''"
  "hostname_of_netloc ''SITE.com'' = ''site.com''"
  "hostname_of_netloc ''u@site.com'' = ''site.com''"
  by code_simp+

text \<open>
  C6: a link whose host equals the host of the base URL should not be external.  The
  comparison is made on \<open>netloc\<close>, which keeps the port, the user information and the
  spelling of the host, so three links to the host \<open>site.com\<close> of the base URL
  \<open>https://site.com/x\<close> (with a port, in upper case, with a user name) are reported external.
\<close>

theorem is_external_link_same_host:
  "hostname_of_netloc ''site.com:443'' = hostname_of_netloc ''site.com''
   \<and> is_external_link example_env ''https://site.com:443/p'' ''https://site.com/x''
   \<and> hostname_of_netloc ''SITE.com'' = hostname_of_netloc ''site.com''
   \<and> is_external_link example_env ''https://SITE.com/p'' ''https://site.com/x''
   \<and> hostname_of_netloc ''u@site.com'' = hostname_of_netloc ''site.com''
   \<and> is_external_link example_env ''https://u@site.com/p'' ''https://site.com/x''"
  by (simp add: example_hostnames is_external_link_def is_external_link_body_def
      example_env_simps example_netloc_def)

section \<open>Link extraction\<close>

lemma extract_links_loop_ids:
  "extract_links_loop e base i as = Inr links \<Longrightarrow>
     length links = length as \<and>
     map (\<lambda>l. map_of l ''id'') links = map (\<lambda>k. Some (PInt (int k))) [Suc i..<Suc i + length as] \<and>
     map (\<lambda>l. map_of l ''original_href'') links = map (\<lambda>a. Some (PStr (attr_get a ''href''))) as"
proof (induction as arbitrary: i links)
  case Nil
  then show ?case by simp
next
  case (Cons a as)
  from Cons.prems obtain u rest where
    u: "urljoin e base (attr_get a ''href'') = Inr u"
    and rest: "extract_links_loop e base (Suc i) as = Inr rest"
    and links: "links = link_obj e base i a u # rest"
    by (auto split: sum.splits)
  from Cons.IH[OF rest] have
    len: "length rest = length as"
    and ids: "map (\<lambda>l. map_of l ''id'') rest = map (\<lambda>k. Some (PInt (int k))) [Suc (Suc i)..<Suc (Suc i) + length as]"
    and hrefs: "map (\<lambda>l. map_of l ''original_href'') rest = map (\<lambda>a. Some (PStr (attr_get a ''href''))) as"
    by auto
  have hd_id: "map_of (link_obj e base i a u) ''id'' = Some (PInt (int (Suc i)))"
    by (simp add: link_obj_def Let_def)
  have hd_href: "map_of (link_obj e base i a u) ''original_href'' = Some (PStr (attr_get a ''href''))"
    by (simp add: link_obj_def Let_def)
  have range: "[Suc i..<Suc i + length (a # as)] = Suc i # [Suc (Suc i)..<Suc (Suc i) + length as]"
    by (simp add: upt_rec)
  show ?case
    unfolding links range using len ids hrefs hd_id hd_href by simp
qed

lemma extract_links_loop_total:
  "\<forall>a \<in> set as. \<exists>u. urljoin e base (attr_get a ''href'') = Inr u \<Longrightarrow>
   \<exists>links. extract_links_loop e base i as = Inr links"
proof (induction as arbitrary: i)
  case Nil
  then show ?case by simp
next
  case (Cons a as)
  obtain u where u: "urljoin e base (attr_get a ''href'') = Inr u"
    using Cons.prems by auto
  have "\<forall>a \<in> set as. \<exists>u. urljoin e base (attr_get a ''href'') = Inr u"
    using Cons.prems by simp
  then obtain rest where "extract_links_loop e base (Suc i) as = Inr rest"
    using Cons.IH by blast
  with u show ?case by simp
qed

text \<open>
  C7: whenever \<open>_extract_links\<close> returns a list, its links follow the anchors in document
  order and the k-th link has id k, so the ids are 1, 2, ..., n; and it does return a list
  whenever \<open>urljoin\<close> accepts the href of every anchor.
\<close>

theorem extract_links_ids_contiguous:
  "(\<forall>links. extract_links e soup base_url = Inr links \<longrightarrow>
      map (\<lambda>l. map_of l ''id'') links = map (\<lambda>k. Some (PInt (int k))) [1..<Suc (length links)] \<and>
      map (\<lambda>l. map_of l ''original_href'') links =
        map (\<lambda>a. Some (PStr (attr_get a ''href''))) (anchors_with_href soup))
   \<and> ((\<forall>a \<in> set (anchors_with_href soup). \<exists>u. urljoin e base_url (attr_get a ''href'') = Inr u) \<longrightarrow>
        (\<exists>links. extract_links e soup base_url = Inr links))"
proof (intro conjI allI impI)
  fix links assume a: "extract_links e soup base_url = Inr links"
  from extract_links_loop_ids[OF a[unfolded extract_links_def]]
  show "map (\<lambda>l. map_of l ''id'') links = map (\<lambda>k. Some (PInt (int k))) [1..<Suc (length links)]"
    by simp
  from extract_links_loop_ids[OF a[unfolded extract_links_def]]
  show "map (\<lambda>l. map_of l ''original_href'') links =
        map (\<lambda>a. Some (PStr (attr_get a ''href''))) (anchors_with_href soup)"
    by simp
next
  assume "\<forall>a \<in> set (anchors_with_href soup). \<exists>u. urljoin e base_url (attr_get a ''href'') = Inr u"
  then show "\<exists>links. extract_links e soup base_url = Inr links"
    unfolding extract_links_def by (rule extract_links_loop_total)
qed

theorem extract_links_ids_contiguous_witness:
  "\<exists>links. extract_links example_env example_doc ''https://site.com/x'' = Inr links \<and>
     map (\<lambda>l. map_of l ''id'') links = [Some (PInt 1), Some (PInt 2)] \<and>
     map (\<lambda>l. map_of l ''original_href'') links =
       [Some (PStr ''/d.pdf''), Some (PStr ''https://other.org/p'')]"
proof -
  have anchors: "anchors_with_href example_doc =
      [Element ''a'' [(''href'', ''/d.pdf'')] [Text ''R''],
       Element ''a'' [(''href'', ''https://other.org/p'')] [Text ''O'']]"
    by (simp add: anchors_with_href_def find_all_def descendants_def example_doc_def)
  have "\<forall>a \<in> set (anchors_with_href example_doc).
          \<exists>u. urljoin example_env ''https://site.com/x'' (attr_get a ''href'') = Inr u"
    by (simp add: anchors example_env_simps example_urljoin_def attr_get_def)
  then obtain links where l: "extract_links example_env example_doc ''https://site.com/x'' = Inr links"
    using extract_links_ids_contiguous [of example_env example_doc "''https://site.com/x''"] by blast
  then have ids: "map (\<lambda>l. map_of l ''id'') links = map (\<lambda>k. Some (PInt (int k))) [1..<Suc (length links)]"
    and hrefs: "map (\<lambda>l. map_of l ''original_href'') links =
        map (\<lambda>a. Some (PStr (attr_get a ''href''))) (anchors_with_href example_doc)"
    using extract_links_ids_contiguous [of example_env example_doc "''https://site.com/x''"] by blast+
  from hrefs have len: "length links = 2" 
    using anchors by (metis length_map length_Cons list.size(3) numeral_2_eq_2)
  have "[1..<Suc 2] = [1, 2]" by (simp add: upt_rec)
  with ids len have "map (\<lambda>l. map_of l ''id'') links = [Some (PInt 1), Some (PInt 2)]" by simp
  moreover from hrefs anchors have "map (\<lambda>l. map_of l ''original_href'') links =
       [Some (PStr ''/d.pdf''), Some (PStr ''https://other.org/p'')]"
    by (simp add: attr_get_def)
  ultimately show ?thesis using l by (intro exI[of _ links]) simp
qed

section \<open>Counts of the text extraction\<close>

lemma handle_request_errors_keys_success:
  "map_of (handle_request_errors e cfg ex) ''success'' = Some (PBool False)"
  by (simp add: handle_request_errors_def create_error_response_def)

lemma text_scrape_page_success:
  assumes s: "map_of (text_scrape_page e cfg url1) ''success'' = Some (PBool True)"
  shows "\<exists>soup. map_of (text_scrape_page e cfg url1) ''text'' = Some (dict_get (extract_text_content soup) ''text'') \<and>
     map_of (text_scrape_page e cfg url1) ''word_count'' = Some (dict_get (extract_text_content soup) ''word_count'') \<and>
     map_of (text_scrape_page e cfg url1) ''character_count'' = Some (dict_get (extract_text_content soup) ''character_count'')"
proof (cases url1)
  case None
  with s show ?thesis
    by (simp add: text_scrape_page_def handle_request_errors_keys_success)
next
  case (Some url)
  note u = Some
  show ?thesis
  proof (cases "get_page_response e url")
    case (Inl ex)
    with u s show ?thesis
      by (simp add: text_scrape_page_def handle_request_errors_keys_success)
  next
    case (Inr content)
    note c = Inr
    show ?thesis
    proof (cases "int (length content) > MAX_CONTENT_LENGTH cfg")
      case True
      with u c s show ?thesis
        by (simp add: text_scrape_page_def text_create_empty_response_def)
    next
      case False
      note small = False
      show ?thesis
      proof (cases "html_parser e content")
        case (Inl ex)
        with u c small s show ?thesis
          by (simp add: text_scrape_page_def handle_request_errors_keys_success)
      next
        case (Inr soup)
        with u c small show ?thesis
          by (intro exI[of _ soup]) (simp add: text_scrape_page_def Let_def)
      qed
    qed
  qed
qed

lemma text_scrape_success:
  assumes s: "map_of (text_scrape e cfg url) ''success'' = Some (PBool True)"
  shows "\<exists>soup. map_of (text_scrape e cfg url) ''text'' = Some (dict_get (extract_text_content soup) ''text'') \<and>
     map_of (text_scrape e cfg url) ''word_count'' = Some (dict_get (extract_text_content soup) ''word_count'') \<and>
     map_of (text_scrape e cfg url) ''character_count'' = Some (dict_get (extract_text_content soup) ''character_count'')"
proof -
  obtain u err where v: "validate_url url = (u, err)" by (cases "validate_url url")
  show ?thesis
  proof (cases "py_truthy err")
    case True
    with v s show ?thesis by (simp add: text_scrape_def text_create_empty_response_def)
  next
    case False
    with v have "text_scrape e cfg url = text_scrape_page e cfg u" by (simp add: text_scrape_def)
    with s show ?thesis using text_scrape_page_success by simp
  qed
qed

theorem text_scrape_counts:
  "map_of (text_scrape e cfg url) ''success'' = Some (PBool True) \<Longrightarrow>
   \<exists>t. map_of (text_scrape e cfg url) ''text'' = Some (PStr t) \<and>
       map_of (text_scrape e cfg url) ''word_count'' = Some (PInt (int (length (py_split t)))) \<and>
       map_of (text_scrape e cfg url) ''character_count'' = Some (PInt (int (length t))) \<and>
       (t = [] \<longrightarrow> map_of (text_scrape e cfg url) ''word_count'' = Some (PInt 0))"
proof -
  assume "map_of (text_scrape e cfg url) ''success'' = Some (PBool True)"
  then obtain soup where
    "map_of (text_scrape e cfg url) ''text'' = Some (dict_get (extract_text_content soup) ''text'')"
    "map_of (text_scrape e cfg url) ''word_count'' = Some (dict_get (extract_text_content soup) ''word_count'')"
    "map_of (text_scrape e cfg url) ''character_count'' = Some (dict_get (extract_text_content soup) ''character_count'')"
    using text_scrape_success by blast
  then show ?thesis
    by (simp add: extract_text_content_def dict_get_def Let_def py_split_def)
qed

theorem text_scrape_counts_witness:
  "map_of (text_scrape example_env example_cfg (Some ''small.test'')) ''success'' = Some (PBool True) \<and>
   (\<exists>t. map_of (text_scrape example_env example_cfg (Some ''small.test'')) ''text'' = Some (PStr t) \<and>
       map_of (text_scrape example_env example_cfg (Some ''small.test'')) ''word_count''
         = Some (PInt (int (length (py_split t)))) \<and>
       map_of (text_scrape example_env example_cfg (Some ''small.test'')) ''character_count''
         = Some (PInt (int (length t)))) \<and>
   map_of (text_scrape example_env example_cfg (Some ''empty.test'')) ''text'' = Some (PStr []) \<and>
   map_of (text_scrape example_env example_cfg (Some ''empty.test'')) ''word_count'' = Some (PInt 0)"
proof -
  have s: "map_of (text_scrape example_env example_cfg (Some ''small.test'')) ''success'' = Some (PBool True)"
    by (simp add: text_scrape_def text_scrape_page_def py_truthy_def validate_url_examples
        example_env_simps small_body_def example_cfg_def Let_def)
  have page: "text_scrape example_env example_cfg (Some ''empty.test'')
      = text_scrape_page example_env example_cfg (Some ''https://empty.test'')"
    by (simp add: text_scrape_def py_truthy_def validate_url_examples)
  have s0: "map_of (text_scrape example_env example_cfg (Some ''empty.test'')) ''success'' = Some (PBool True)"
    unfolding page
    by (simp add: text_scrape_page_def example_env_simps example_cfg_def Let_def small_body_def)
  have rm: "remove_unwanted_elements [] = []"
    by (simp add: remove_unwanted_elements_def decompose_all_def unwanted_selectors_def)
  have ct: "clean_text [] = []"
    by (simp add: clean_text_def py_splitlines_def re_sub_ws_def py_strip_def py_lstrip_def py_rstrip_def)
  have t0: "map_of (text_scrape example_env example_cfg (Some ''empty.test'')) ''text'' = Some (PStr [])"
    unfolding page
    by (simp add: text_scrape_page_def example_env_simps example_cfg_def Let_def small_body_def
        extract_text_content_def dict_get_def rm get_text_def ct)
  from text_scrape_counts [OF s0] t0
  have "map_of (text_scrape example_env example_cfg (Some ''empty.test'')) ''word_count'' = Some (PInt 0)"
    by auto
  with text_scrape_counts [OF s] s t0 show ?thesis by blast
qed

section \<open>Failure responses\<close>

lemma handle_request_errors_keys:
  "map fst (handle_request_errors e cfg ex) = [''success'', ''processing_time'', ''timestamp'', ''error'']"
  by (simp add: handle_request_errors_def create_error_response_def)

text \<open>
  C1: a failure response should carry the payload fields of a success response, empty.  When
  the request times out, both scrapers answer through \<open>handle_request_errors\<close>, whose
  dictionary has the four common keys only: no \<open>urls\<close> and \<open>count\<close>, no \<open>text\<close>.
\<close>

theorem timeout_response_lacks_payload_fields:
  "map fst (url_scrape example_env example_cfg (Some ''slow.test''))
     = [''success'', ''processing_time'', ''timestamp'', ''error'']
   \<and> map fst (text_scrape example_env example_cfg (Some ''slow.test''))
     = [''success'', ''processing_time'', ''timestamp'', ''error'']
   \<and> map_of (url_scrape example_env example_cfg (Some ''slow.test'')) ''urls'' = None
   \<and> map_of (text_scrape example_env example_cfg (Some ''slow.test'')) ''text'' = None"
  by (simp add: url_scrape_def url_scrape_page_def text_scrape_def text_scrape_page_def py_truthy_def
      validate_url_examples example_env_simps handle_request_errors_def create_error_response_def)

section \<open>Content limit\<close>

lemma text_scrape_too_large:
  "validate_url url0 = (Some url, None) \<Longrightarrow> get_page_response e url = Inr content \<Longrightarrow>
   int (length content) > MAX_CONTENT_LENGTH cfg \<Longrightarrow>
   text_scrape e cfg url0 = text_create_empty_response e
      (''Content too large: '' @ str_int (int (length content)) @
       '' bytes (max: '' @ str_int (MAX_CONTENT_LENGTH cfg) @ '')'')"
  by (simp add: text_scrape_def text_scrape_page_def py_truthy_def)

lemma text_scrape_within_limit:
  "validate_url url0 = (Some url, None) \<Longrightarrow> get_page_response e url = Inr content \<Longrightarrow>
   int (length content) \<le> MAX_CONTENT_LENGTH cfg \<Longrightarrow> html_parser e content = Inr soup \<Longrightarrow>
   map_of (text_scrape e cfg url0) ''success'' = Some (PBool True)"
  by (simp add: text_scrape_def text_scrape_page_def py_truthy_def Let_def)

text \<open>
  C2: a body longer than the configured maximum should make both operations fail.  The text
  scraper does (the two lemmas above); the URL scraper never looks at the length: with a
  limit of 20 bytes it answers a body of 63 bytes with a success response of two links.
\<close>

theorem url_scrape_ignores_content_limit:
  "int (length example_body) > MAX_CONTENT_LENGTH example_cfg
   \<and> get_page_response example_env ''https://site.com/x'' = Inr example_body
   \<and> map_of (url_scrape example_env example_cfg (Some ''site.com/x'')) ''success'' = Some (PBool True)
   \<and> map_of (url_scrape example_env example_cfg (Some ''site.com/x'')) ''count'' = Some (PInt 2)"
proof -
  have anchors: "anchors_with_href example_doc =
      [Element ''a'' [(''href'', ''/d.pdf'')] [Text ''R''],
       Element ''a'' [(''href'', ''https://other.org/p'')] [Text ''O'']]"
    by (simp add: anchors_with_href_def find_all_def descendants_def example_doc_def)
  have "\<exists>links. extract_links example_env example_doc ''https://site.com/x'' = Inr links \<and> length links = 2"
    by (simp add: extract_links_def anchors example_env_simps example_urljoin_def attr_get_def)
  then obtain links where l: "extract_links example_env example_doc ''https://site.com/x'' = Inr links"
    and n: "length links = 2" by blast
  have p: "html_parser example_env example_body = Inr example_doc"
    by (simp add: example_env_simps small_body_def example_body_def)
  have g: "get_page_response example_env ''https://site.com/x'' = Inr example_body"
    by (simp add: example_env_simps)
  have "int (length example_body) > MAX_CONTENT_LENGTH example_cfg"
    by (simp add: example_body_def example_cfg_def)
  then show ?thesis
    using l n p g by (simp add: url_scrape_def url_scrape_page_def py_truthy_def validate_url_examples)
qed

section \<open>Title fallback\<close>

text \<open>
  C4, as stated: the chain moves on until a candidate yields a non-empty value.  With an
  empty title element and an Open Graph title, \<open>_extract_title\<close> returns the empty string,
  where such a chain yields the Open Graph title.
\<close>

theorem extract_title_empty_title_counterexample:
  "extract_title empty_title_doc = [] \<and> title_chain_nonempty_spec empty_title_doc = ''Fallback''"
  by (simp add: extract_title_def title_chain_nonempty_spec_def first_nonempty_def empty_title_doc_def
      find_first_def find_first_attr_def find_all_def descendants_def get_text_strip_def attr_get_def)

text \<open>
  C4, amended: the chain moves on only when a candidate element is absent.  The title is
  the stripped text of the first title element if there is one, else the content of the
  first meta element with property \<open>og:title\<close> if there is one, else the stripped text of the
  first h1 if there is one, else empty.  It agrees with the non-empty chain whenever the
  chosen title element or meta element does not yield the empty string.
\<close>

theorem extract_title_presence_chain:
  "extract_title soup =
     (if find_all ''title'' soup \<noteq> [] then get_text_strip (hd (find_all ''title'' soup))
      else if filter (\<lambda>n. map_of (attrs n) ''property'' = Some ''og:title'') (find_all ''meta'' soup) \<noteq> []
      then attr_get (hd (filter (\<lambda>n. map_of (attrs n) ''property'' = Some ''og:title'') (find_all ''meta'' soup))) ''content''
      else if find_all ''h1'' soup \<noteq> [] then get_text_strip (hd (find_all ''h1'' soup))
      else [])
   \<and> ((find_all ''title'' soup \<noteq> [] \<longrightarrow> get_text_strip (hd (find_all ''title'' soup)) \<noteq> []) \<and>
      (find_all ''title'' soup = [] \<and>
       filter (\<lambda>n. map_of (attrs n) ''property'' = Some ''og:title'') (find_all ''meta'' soup) \<noteq> [] \<longrightarrow>
       attr_get (hd (filter (\<lambda>n. map_of (attrs n) ''property'' = Some ''og:title'') (find_all ''meta'' soup))) ''content'' \<noteq> [])
      \<longrightarrow> extract_title soup = title_chain_nonempty_spec soup)"
  by (auto simp: extract_title_def title_chain_nonempty_spec_def first_nonempty_def
        find_first_def find_first_attr_def split: list.splits)

theorem extract_title_presence_chain_witness:
  "extract_title og_title_doc = ''Fallback'' \<and> extract_title og_title_doc = title_chain_nonempty_spec og_title_doc"
proof -
  have t: "find_all ''title'' og_title_doc = []"
    by (simp add: find_all_def descendants_def og_title_doc_def)
  have m: "filter (\<lambda>n. map_of (attrs n) ''property'' = Some ''og:title'') (find_all ''meta'' og_title_doc)
      = [Element ''meta'' [(''property'', ''og:title''), (''content'', ''Fallback'')] []]"
    by (simp add: find_all_def descendants_def og_title_doc_def)
  have c: "attr_get (Element ''meta'' [(''property'', ''og:title''), (''content'', ''Fallback'')] []) ''content'' = ''Fallback''"
    by (simp add: attr_get_def)
  note chain = extract_title_presence_chain [of og_title_doc, unfolded t m, simplified]
  from chain have e: "extract_title og_title_doc = ''Fallback''"
    unfolding c by (rule conjunct1)
  from chain have "''Fallback'' \<noteq> [] \<longrightarrow>
      extract_title og_title_doc = title_chain_nonempty_spec og_title_doc"
    unfolding c by (rule conjunct2)
  then have "extract_title og_title_doc = title_chain_nonempty_spec og_title_doc"
    by simp
  with e show ?thesis by (rule conjI)
qed

section \<open>Metadata after noise removal\<close>

lemma contains_sublist: "contains s p = sublist p s"
  by (induction s) (simp_all add: startswith_prefix sublist_Cons_right)

lemma sublist_skip_char:
  assumes "c \<notin> set p" and "p \<noteq> []"
  shows "sublist p (x @ c # y) = (sublist p x \<or> sublist p y)"
proof
  assume "sublist p (x @ c # y)"
  then consider "sublist p x" | "sublist p (c # y)"
    | p1 p2 where "p = p1 @ p2" "suffix p1 x" "prefix p2 (c # y)"
    unfolding sublist_append by blast
  then show "sublist p x \<or> sublist p y"
  proof cases
    case 1 then show ?thesis by simp
  next
    case 2
    then have "prefix p (c # y) \<or> sublist p y" by (simp add: sublist_Cons_right)
    moreover have "\<not> prefix p (c # y)"
      using assms by (cases p) (auto simp: prefix_Cons)
    ultimately show ?thesis by simp
  next
    case 3
    have "p2 = []"
    proof (cases p2)
      case Nil then show ?thesis .
    next
      case (Cons d ds)
      with 3(3) have "d = c" by simp
      with Cons 3(1) assms(1) show ?thesis by simp
    qed
    with 3 have "suffix p x" by simp
    then show ?thesis by (auto intro: suffix_imp_sublist)
  qed
next
  assume "sublist p x \<or> sublist p y"
  then show "sublist p (x @ c # y)"
    by (metis sublist_append sublist_Cons_right)
qed

lemma sublist_join:
  assumes "CHR '' '' \<notin> set p" and "p \<noteq> []"
  shows "sublist p (py_join '' '' ts) = (\<exists>t \<in> set ts. sublist p t)"
proof (induction ts rule: induct_list012)
  case 1 then show ?case using assms(2) by simp
next
  case (2 x) then show ?case by simp
next
  case (3 x y zs)
  have "sublist p (x @ CHR '' '' # py_join '' '' (y # zs)) = (sublist p x \<or> sublist p (py_join '' '' (y # zs)))"
    using assms by (rule sublist_skip_char)
  with 3 show ?case by simp
qed

lemma sublist_split_ws_acc:
  assumes "\<forall>c \<in> set p. \<not> py_isspace c" and "p \<noteq> []"
  shows "(\<exists>t \<in> set (split_ws_acc w v). sublist p t) = sublist p (w @ v)"
proof (induction v arbitrary: w)
  case Nil then show ?case using assms(2) by simp
next
  case (Cons c cs)
  show ?case
  proof (cases "py_isspace c")
    case True
    then have "c \<notin> set p" using assms(1) by auto
    then have sk: "sublist p (w @ c # cs) = (sublist p w \<or> sublist p cs)"
      using assms(2) by (rule sublist_skip_char)
    have emp: "\<not> sublist p []" using assms(2) by simp
    from True sk Cons.IH[of "[]"] emp show ?thesis by auto
  next
    case False
    with Cons.IH[of "w @ [c]"] show ?thesis by simp
  qed
qed

lemma select_contains_class:
  assumes "\<forall>c \<in> set sub. \<not> py_isspace c" and "sub \<noteq> []"
  shows "select_contains (''class'', sub) t a = attr_contains a ''class'' sub"
proof (cases "map_of a ''class''")
  case None
  then show ?thesis
    by (simp add: select_contains_def attr_value_for_select_def class_tokens_def attr_contains_def)
next
  case (Some v)
  have sp: "py_isspace (CHR '' '')" by (simp add: py_isspace_def)
  then have ns: "CHR '' '' \<notin> set sub" using assms(1) by auto
  have "sublist sub (py_join '' '' (py_split v)) = (\<exists>t \<in> set (py_split v). sublist sub t)"
    using ns assms(2) by (rule sublist_join)
  also have "\<dots> = sublist sub v"
    unfolding py_split_def using sublist_split_ws_acc[OF assms, of "[]" v] by simp
  finally show ?thesis using Some
    by (simp add: select_contains_def attr_value_for_select_def class_tokens_def attr_contains_def
        contains_sublist)
qed

lemma select_contains_id: "select_contains (''id'', sub) t a = attr_contains a ''id'' sub"
  by (simp add: select_contains_def attr_value_for_select_def attr_contains_def split: option.splits)

lemma noise_substrings_no_space:
  "sub \<in> set noise_substrings \<Longrightarrow> (\<forall>c \<in> set sub. \<not> py_isspace c) \<and> sub \<noteq> []"
  by (auto simp: noise_substrings_def py_isspace_def)

lemma decompose_matching_twice:
  "concat (map (decompose_matching P) (decompose_matching Q n)) = decompose_matching (\<lambda>t a. Q t a \<or> P t a) n"
proof (induction n)
  case (Text s) show ?case by simp
next
  case (Element t a cs)
  have "concat (map (decompose_matching P) (concat (map (decompose_matching Q) cs)))
      = concat (map (decompose_matching (\<lambda>t a. Q t a \<or> P t a)) cs)"
    using Element.IH by (induction cs) auto
  then show ?case by simp
qed

lemma decompose_all_twice:
  "decompose_all P (decompose_all Q d) = decompose_all (\<lambda>t a. Q t a \<or> P t a) d"
  unfolding decompose_all_def by (induction d) (simp_all add: decompose_matching_twice)

lemma remove_unwanted_elements_is_noise:
  "remove_unwanted_elements doc = decompose_all is_noise doc"
  unfolding remove_unwanted_elements_def Let_def unwanted_selectors_def foldl.simps decompose_all_twice
  by (rule arg_cong[of _ _ "\<lambda>P. decompose_all P doc"], intro ext)
     (auto simp: is_noise_def noise_substrings_def select_contains_id select_contains_class py_isspace_def)

lemma elements_decompose_matching:
  "concat (map elements (decompose_matching is_noise n)) = map strip_noise (elements_outside_noise n)"
proof (induction n)
  case (Text s) show ?case by simp
next
  case (Element t a cs)
  have "concat (map elements (concat (map (decompose_matching is_noise) cs)))
      = map strip_noise (concat (map elements_outside_noise cs))"
    using Element.IH by (induction cs) auto
  then show ?case by simp
qed

lemma descendants_decompose_all:
  "descendants (decompose_all is_noise doc) = map strip_noise (concat (map elements_outside_noise doc))"
  unfolding descendants_def decompose_all_def
  by (induction doc) (simp_all add: elements_decompose_matching)

lemma tag_name_strip_noise: "tag_name (strip_noise n) = tag_name n"
  by (cases n) simp_all

lemma attrs_strip_noise: "attrs (strip_noise n) = attrs n"
  by (cases n) simp_all

lemma elements_outside_noise_clean:
  "h \<in> set (elements_outside_noise n) \<Longrightarrow> \<not> is_noise (tag_name h) (attrs h)"
proof (induction n)
  case (Text s) then show ?case by simp
next
  case (Element t a cs)
  then show ?case by (auto split: if_splits)
qed

lemma find_all_decompose_all:
  "find_all name (decompose_all is_noise doc) =
     map strip_noise (filter (\<lambda>h. tag_name h = name) (concat (map elements_outside_noise doc)))"
  unfolding find_all_def descendants_decompose_all
  by (simp add: filter_map comp_def tag_name_strip_noise)

lemma heading_texts_outside_noise:
  "heading_texts level (remove_unwanted_elements doc) = headings_outside_noise level doc"
  by (simp add: heading_texts_def headings_outside_noise_def remove_unwanted_elements_is_noise
      find_all_decompose_all)

text \<open>
  C10: title, meta description and headings are read from the tree that noise removal leaves.
  The headings of each level are the stripped texts of exactly those heading elements of the
  original tree that are neither noise nor inside a noise element (a script, style, nav,
  header, footer or aside tag, or an element whose class or id contains one of the noise
  substrings); the h1 candidates of the title are the same elements; and no element of the
  tree that is read is noise.
\<close>

theorem metadata_after_noise_removal:
  "dict_get (extract_text_content doc) ''headings'' =
     PDict (map (\<lambda>level. (level, PList (map PStr (headings_outside_noise level doc))))
                [''h1'', ''h2'', ''h3'', ''h4'', ''h5'', ''h6''])
   \<and> dict_get (extract_text_content doc) ''title'' = PStr (extract_title (decompose_all is_noise doc))
   \<and> dict_get (extract_text_content doc) ''meta_description'' =
       PStr (extract_meta_description (decompose_all is_noise doc))
   \<and> find_all ''h1'' (decompose_all is_noise doc) =
       map strip_noise (filter (\<lambda>h. tag_name h = ''h1'') (concat (map elements_outside_noise doc)))
   \<and> (\<forall>h \<in> set (descendants (decompose_all is_noise doc)). \<not> is_noise (tag_name h) (attrs h))"
proof (intro conjI)
  show "dict_get (extract_text_content doc) ''headings'' =
     PDict (map (\<lambda>level. (level, PList (map PStr (headings_outside_noise level doc))))
                [''h1'', ''h2'', ''h3'', ''h4'', ''h5'', ''h6''])"
    by (simp add: extract_text_content_def Let_def dict_get_def extract_headings_def
        heading_texts_outside_noise)
  show "dict_get (extract_text_content doc) ''title'' = PStr (extract_title (decompose_all is_noise doc))"
    by (simp add: extract_text_content_def Let_def dict_get_def remove_unwanted_elements_is_noise)
  show "dict_get (extract_text_content doc) ''meta_description'' =
       PStr (extract_meta_description (decompose_all is_noise doc))"
    by (simp add: extract_text_content_def Let_def dict_get_def remove_unwanted_elements_is_noise)
  show "find_all ''h1'' (decompose_all is_noise doc) =
       map strip_noise (filter (\<lambda>h. tag_name h = ''h1'') (concat (map elements_outside_noise doc)))"
    by (rule find_all_decompose_all)
  show "\<forall>h \<in> set (descendants (decompose_all is_noise doc)). \<not> is_noise (tag_name h) (attrs h)"
    unfolding descendants_decompose_all
    by (auto simp: tag_name_strip_noise attrs_strip_noise dest: elements_outside_noise_clean)
qed

lemma nav_doc_outside:
  "concat (map elements_outside_noise nav_doc) = [Element ''h1'' [] [Text ''Story'']]"
  by (simp add: nav_doc_def is_noise_def noise_substrings_def attr_contains_def startswith_def)

lemma get_text_strip_story: "get_text_strip (Element ''h1'' [] [Text ''Story'']) = ''Story''"
  by (simp add: get_text_strip_def py_strip_def py_lstrip_def py_rstrip_def py_isspace_def)

theorem metadata_after_noise_removal_witness:
  "dict_get (extract_text_content nav_doc) ''headings'' =
     PDict [(''h1'', PList [PStr ''Story'']), (''h2'', PList []), (''h3'', PList []),
            (''h4'', PList []), (''h5'', PList []), (''h6'', PList [])]
   \<and> find_all ''h1'' (decompose_all is_noise nav_doc) = [Element ''h1'' [] [Text ''Story'']]
   \<and> descendants (decompose_all is_noise nav_doc) = [Element ''h1'' [] [Text ''Story'']]
   \<and> \<not> is_noise ''h1'' []"
  using metadata_after_noise_removal [of nav_doc]
  by (simp add: headings_outside_noise_def nav_doc_outside get_text_strip_story
      descendants_decompose_all)

end
